theory Spec2Isabelle
  imports Complex_Main "HOL-Library.Word" "HOL-Library.AList"
begin

section \<open>Common types\<close>

text \<open>
  The repository instantiates its templates with \<open>uint32_t\<close> for the identifier, size,
  delay and matrix index types (\<open>Graph<uint32_t, uint32_t>\<close>,
  \<open>FirstOrderDynamics<uint32_t, uint32_t, uint32_t>\<close>, \<open>SparseMatrix<Id, bool>\<close> with
  \<open>Id = uint32_t\<close>). They are 32-bit words here: \<open>+\<close>, \<open>-\<close> and \<open>*\<close> wrap around as the
  C++ operators on \<open>uint32_t\<close> do. The \<open>int16_t\<close> keys of the agent multimap are 16-bit
  words read through \<open>sint\<close>. The coordinates of a node and the angle of \<open>addAgent\<close> are
  values of type \<open>double\<close>, written as reals; no theorem depends on their value. The
  arithmetic of \<open>double\<close> that \<open>getNormRows\<close> computes with is a parameter of the model.
\<close>

type_synonym Id = "32 word"
type_synonym Size = "32 word"
type_synonym Delay = "32 word"
type_synonym Index = "32 word"
type_synonym int16 = "16 word"

text \<open>
  Every \<open>throw\<close> of the source is a value: \<open>RuntimeError\<close> carries the message handed to
  \<open>buildLog\<close>, \<open>OutOfRange\<close> is \<open>std::out_of_range\<close>, \<open>BadOptionalAccess\<close> is what
  \<open>std::optional::value\<close> throws on an empty optional, and \<open>DivisionByZero\<close> marks an
  integer division or remainder by zero, which C++ leaves undefined.
\<close>

datatype error = OutOfRange | RuntimeError string | BadOptionalAccess | DivisionByZero

section \<open>Nodes (Node.hpp)\<close>

record NodeConcept =
  m_id :: Id
  m_coords :: "(real \<times> real) option"
  m_capacity :: Size

record Node = NodeConcept +
  m_agents :: "(int16 \<times> Id) list"
  m_streetPriorities :: "Id set"
  m_agentCounter :: Size

record TrafficLight = Node +
  m_delay :: "(Delay \<times> Delay) option"
  m_counter :: Delay
  m_phase :: Delay

text \<open>
  The roundabout's queue is the field \<open>m_agents\<close> of the class \<open>Roundabout\<close>; it is named
  \<open>m_queue\<close> here because a record field name cannot be used twice.
  Modelled from the spec: \<open>dsm::queue\<close> (utility/queue.hpp) is a FIFO queue that can be
  iterated from front to back; it is a list whose head is the front.
\<close>

record Roundabout = NodeConcept +
  m_queue :: "Id list"

text \<open>
  A node operation returns what the call returns (or the error it throws) together with
  the object as the call leaves it, so that the state after a \<open>throw\<close> can be observed.
\<close>

type_synonym ('r, 's) outcome = "(error + 'r) \<times> 's"

subsection \<open>NodeConcept\<close>

definition NodeConcept_id :: "Id \<Rightarrow> NodeConcept" where
  "NodeConcept_id i = \<lparr>m_id = i, m_coords = None, m_capacity = 1\<rparr>"

definition setId :: "Id \<Rightarrow> 'a NodeConcept_scheme \<Rightarrow> (unit, 'a NodeConcept_scheme) outcome" where
  "setId i n = (Inr (), n\<lparr>m_id := i\<rparr>)"

definition setCoords ::
  "real \<times> real \<Rightarrow> 'a NodeConcept_scheme \<Rightarrow> (unit, 'a NodeConcept_scheme) outcome" where
  "setCoords c n = (Inr (), n\<lparr>m_coords := Some c\<rparr>)"

definition NodeConcept_setCapacity ::
  "Size \<Rightarrow> 'a NodeConcept_scheme \<Rightarrow> (unit, 'a NodeConcept_scheme) outcome" where
  "NodeConcept_setCapacity capacity n = (Inr (), n\<lparr>m_capacity := capacity\<rparr>)"

subsection \<open>Node (the intersection)\<close>

text \<open>
  \<open>std::multimap<int16_t, Id>\<close> keeps its entries ordered by key, entries with equal keys
  in insertion order: \<open>emplace\<close> puts the new entry behind every entry whose key is not
  greater.
\<close>

fun emplace_mm :: "int16 \<Rightarrow> Id \<Rightarrow> (int16 \<times> Id) list \<Rightarrow> (int16 \<times> Id) list" where
  "emplace_mm k v [] = [(k, v)]"
| "emplace_mm k v ((k', v') # xs) =
     (if sint k < sint k' then (k, v) # (k', v') # xs else (k', v') # emplace_mm k v xs)"

text \<open>The loop \<open>for (auto const [angle, id] : m_agents) if (id == agentId) throw\<close>.\<close>

fun agentOnNode :: "Id \<Rightarrow> (int16 \<times> Id) list \<Rightarrow> bool" where
  "agentOnNode agentId [] = False"
| "agentOnNode agentId ((angle, i) # xs) = (if i = agentId then True else agentOnNode agentId xs)"

text \<open>
  \<open>static_cast<int16_t>(angle * 100)\<close> truncates towards zero. The conversion is undefined
  in C++ when the truncated value does not fit 16 bits; the model wraps there.
\<close>

definition to_int16 :: "real \<Rightarrow> int16" where
  "to_int16 x = word_of_int (if 0 \<le> x then \<lfloor>x\<rfloor> else \<lceil>x\<rceil>)"

definition Node_setCapacity ::
  "Size \<Rightarrow> 'a Node_scheme \<Rightarrow> (unit, 'a Node_scheme) outcome" where
  "Node_setCapacity capacity n =
     (if unat capacity < length (m_agents n)
      then (Inl (RuntimeError ''Node capacity is smaller than the current queue size''), n)
      else NodeConcept_setCapacity capacity n)"

definition addAgent_angle ::
  "real \<Rightarrow> Id \<Rightarrow> 'a Node_scheme \<Rightarrow> (unit, 'a Node_scheme) outcome" where
  "addAgent_angle angle agentId n =
     (if length (m_agents n) = unat (m_capacity n)
      then (Inl (RuntimeError ''Node is full''), n)
      else if agentOnNode agentId (m_agents n)
      then (Inl (RuntimeError ''Agent is already on the node.''), n)
      else (Inr (), n\<lparr>m_agents := emplace_mm (to_int16 (angle * 100)) agentId (m_agents n),
                       m_agentCounter := m_agentCounter n + 1\<rparr>))"

text \<open>
  \<open>lastKey\<close> is an \<open>int\<close>: the last key plus one, narrowed to \<open>int16_t\<close> by \<open>emplace\<close>.
\<close>

definition addAgent :: "Id \<Rightarrow> 'a Node_scheme \<Rightarrow> (unit, 'a Node_scheme) outcome" where
  "addAgent agentId n =
     (if length (m_agents n) = unat (m_capacity n)
      then (Inl (RuntimeError ''Node is full''), n)
      else if agentOnNode agentId (m_agents n)
      then (Inl (RuntimeError ''Agent is already on the node.''), n)
      else (let lastKey = (if m_agents n \<noteq> [] then sint (fst (last (m_agents n))) + 1 else 0)
            in (Inr (), n\<lparr>m_agents := emplace_mm (word_of_int lastKey) agentId (m_agents n),
                             m_agentCounter := m_agentCounter n + 1\<rparr>)))"

text \<open>\<open>removeAgent\<close> erases the first entry that holds the agent.\<close>

fun erase_agent :: "Id \<Rightarrow> (int16 \<times> Id) list \<Rightarrow> (int16 \<times> Id) list" where
  "erase_agent agentId [] = []"
| "erase_agent agentId ((angle, i) # xs) =
     (if i = agentId then xs else (angle, i) # erase_agent agentId xs)"

definition removeAgent :: "Id \<Rightarrow> 'a Node_scheme \<Rightarrow> (unit, 'a Node_scheme) outcome" where
  "removeAgent agentId n =
     (if agentOnNode agentId (m_agents n)
      then (Inr (), n\<lparr>m_agents := erase_agent agentId (m_agents n)\<rparr>)
      else (Inl (RuntimeError ''Agent is not on the node''), n))"

definition setStreetPriorities ::
  "Id set \<Rightarrow> 'a Node_scheme \<Rightarrow> (unit, 'a Node_scheme) outcome" where
  "setStreetPriorities streetPriorities n = (Inr (), n\<lparr>m_streetPriorities := streetPriorities\<rparr>)"

definition addStreetPriority :: "Id \<Rightarrow> 'a Node_scheme \<Rightarrow> (unit, 'a Node_scheme) outcome" where
  "addStreetPriority streetId n =
     (Inr (), n\<lparr>m_streetPriorities := insert streetId (m_streetPriorities n)\<rparr>)"

definition Node_isFull :: "'a Node_scheme \<Rightarrow> bool" where
  "Node_isFull n = (length (m_agents n) = unat (m_capacity n))"

definition agentCounter :: "'a Node_scheme \<Rightarrow> (Size, 'a Node_scheme) outcome" where
  "agentCounter n = (Inr (m_agentCounter n), n\<lparr>m_agentCounter := 0\<rparr>)"

text \<open>The capacity invariant of an intersection: no more queued agents than its capacity.\<close>

definition within_capacity :: "'a Node_scheme \<Rightarrow> bool" where
  "within_capacity n = (length (m_agents n) \<le> unat (m_capacity n))"

subsection \<open>TrafficLight\<close>

definition setDelay :: "Delay \<Rightarrow> 'a TrafficLight_scheme \<Rightarrow> (unit, 'a TrafficLight_scheme) outcome" where
  "setDelay delay t =
     (let t' =
        (case m_delay t of
           None \<Rightarrow> t
         | Some (green, red) \<Rightarrow>
             if m_counter t \<ge> delay + red then t\<lparr>m_counter := delay + red - 1\<rparr>
             else if delay < green then
               (if m_counter t \<ge> delay \<and> m_counter t \<le> green
                then t\<lparr>m_counter := delay - (green - m_counter t)\<rparr> else t)
             else t)
      in (Inr (), t'\<lparr>m_delay := Some (delay, delay)\<rparr>))"

definition setDelay_pair ::
  "Delay \<times> Delay \<Rightarrow> 'a TrafficLight_scheme \<Rightarrow> (unit, 'a TrafficLight_scheme) outcome" where
  "setDelay_pair delay t =
     (let t' =
        (case m_delay t of
           None \<Rightarrow> t
         | Some (green, red) \<Rightarrow>
             if m_counter t \<ge> fst delay + snd delay
             then t\<lparr>m_counter := fst delay + snd delay - 1\<rparr>
             else if fst delay < green then
               (if m_counter t \<ge> fst delay \<and> m_counter t \<le> green
                then t\<lparr>m_counter := fst delay - (green - m_counter t)\<rparr> else t)
             else t)
      in (Inr (), t'\<lparr>m_delay := Some delay\<rparr>))"

definition setPhase :: "Delay \<Rightarrow> 'a TrafficLight_scheme \<Rightarrow> (unit, 'a TrafficLight_scheme) outcome" where
  "setPhase phase t =
     (case m_delay t of
        None \<Rightarrow> (Inl (RuntimeError ''TrafficLight's delay has not been set.''), t)
      | Some (green, red) \<Rightarrow>
          (let phase' = (if phase > green + red then phase - (green + red) else phase)
           in (Inr (), t\<lparr>m_counter := phase', m_phase := 0\<rparr>)))"

definition setPhaseAfterCycle ::
  "Delay \<Rightarrow> 'a TrafficLight_scheme \<Rightarrow> (unit, 'a TrafficLight_scheme) outcome" where
  "setPhaseAfterCycle phase t =
     (case m_delay t of
        None \<Rightarrow> (Inl BadOptionalAccess, t)
      | Some (green, red) \<Rightarrow>
          (let phase' = (if phase > green + red then phase - (green + red) else phase)
           in (Inr (), t\<lparr>m_phase := phase'\<rparr>)))"

definition increaseCounter :: "'a TrafficLight_scheme \<Rightarrow> (unit, 'a TrafficLight_scheme) outcome" where
  "increaseCounter t =
     (case m_delay t of
        None \<Rightarrow> (Inl (RuntimeError ''TrafficLight's delay has not been set.''), t)
      | Some (green, red) \<Rightarrow>
          (let t1 = t\<lparr>m_counter := m_counter t + 1\<rparr>
           in if m_counter t1 = green + red
              then (if m_phase t1 \<noteq> 0
                    then (Inr (), t1\<lparr>m_counter := m_phase t1, m_phase := 0\<rparr>)
                    else (Inr (), t1\<lparr>m_counter := 0\<rparr>))
              else (Inr (), t1)))"

definition isGreen :: "'a TrafficLight_scheme \<Rightarrow> error + bool" where
  "isGreen t =
     (case m_delay t of
        None \<Rightarrow> Inl (RuntimeError ''TrafficLight's delay has not been set.'')
      | Some (green, red) \<Rightarrow> Inr (m_counter t < green))"

definition isGreen_street :: "Id \<Rightarrow> 'a TrafficLight_scheme \<Rightarrow> error + bool" where
  "isGreen_street streetId t =
     (case m_delay t of
        None \<Rightarrow> Inl (RuntimeError ''TrafficLight's delay has not been set.'')
      | Some (green, red) \<Rightarrow>
          (let hasPriority = (streetId \<in> m_streetPriorities t)
           in case isGreen t of
                Inl e \<Rightarrow> Inl e
              | Inr g \<Rightarrow> if g then Inr hasPriority else Inr (\<not> hasPriority)))"

text \<open>The counter lies in the cycle \<open>[0, green + red)\<close> of a traffic light whose delay is set.\<close>

definition counter_in_cycle :: "'a TrafficLight_scheme \<Rightarrow> bool" where
  "counter_in_cycle t =
     (case m_delay t of None \<Rightarrow> False | Some (green, red) \<Rightarrow> m_counter t < green + red)"

subsection \<open>Roundabout\<close>

text \<open>The loop \<open>for (const auto id : m_agents) if (id == agentId) throw\<close>.\<close>

fun agentOnRoundabout :: "Id \<Rightarrow> Id list \<Rightarrow> bool" where
  "agentOnRoundabout agentId [] = False"
| "agentOnRoundabout agentId (i # xs) = (if i = agentId then True else agentOnRoundabout agentId xs)"

definition enqueue :: "Id \<Rightarrow> 'a Roundabout_scheme \<Rightarrow> (unit, 'a Roundabout_scheme) outcome" where
  "enqueue agentId rb =
     (if length (m_queue rb) = unat (m_capacity rb)
      then (Inl (RuntimeError ''Roundabout is full''), rb)
      else if agentOnRoundabout agentId (m_queue rb)
      then (Inl (RuntimeError ''Agent is already on the roundabout.''), rb)
      else (Inr (), rb\<lparr>m_queue := m_queue rb @ [agentId]\<rparr>))"

definition dequeue :: "'a Roundabout_scheme \<Rightarrow> (Id, 'a Roundabout_scheme) outcome" where
  "dequeue rb =
     (case m_queue rb of
        [] \<Rightarrow> (Inl (RuntimeError ''Roundabout is empty''), rb)
      | agentId # rest \<Rightarrow> (Inr agentId, rb\<lparr>m_queue := rest\<rparr>))"

definition Roundabout_isFull :: "'a Roundabout_scheme \<Rightarrow> bool" where
  "Roundabout_isFull rb = (length (m_queue rb) = unat (m_capacity rb))"

section \<open>Sparse matrix (SparseMatrix.hpp)\<close>

text \<open>
  \<open>std::unordered_map<Index, T>\<close> is an association list with at most one entry for a
  key. C++ leaves the order in which such a map is iterated unspecified; the model
  iterates in list order and puts a new key behind the others. The value type \<open>T\<close> is
  a type parameter, \<open>_defaultReturn\<close> is its zero.
\<close>

record 'v SparseMatrix =
  matrix :: "(Index \<times> 'v) list"
  rows :: Index
  cols :: Index
  defaultReturn :: 'v

definition well_keyed :: "'v SparseMatrix \<Rightarrow> bool" where
  "well_keyed m = distinct (map fst (matrix m))"

definition SparseMatrix_default :: "'v::zero SparseMatrix" where
  "SparseMatrix_default = \<lparr>matrix = [], rows = 0, cols = 0, defaultReturn = 0\<rparr>"

definition SparseMatrix_dims :: "Index \<Rightarrow> Index \<Rightarrow> 'v::zero SparseMatrix" where
  "SparseMatrix_dims r c = \<lparr>matrix = [], rows = r, cols = c, defaultReturn = 0\<rparr>"

definition SparseMatrix_index :: "Index \<Rightarrow> 'v::zero SparseMatrix" where
  "SparseMatrix_index index = \<lparr>matrix = [], rows = index, cols = 1, defaultReturn = 0\<rparr>"

text \<open>\<open>unordered_map::emplace\<close> leaves the map as it is when the key is present.\<close>

definition emplace :: "Index \<Rightarrow> 'v \<Rightarrow> (Index \<times> 'v) list \<Rightarrow> (Index \<times> 'v) list" where
  "emplace k v xs = (case map_of xs k of Some old \<Rightarrow> xs | None \<Rightarrow> xs @ [(k, v)])"

text \<open>A loop over a container whose body may throw: the first error ends the loop.\<close>

fun foldM :: "('a \<Rightarrow> 's \<Rightarrow> error + 's) \<Rightarrow> 'a list \<Rightarrow> 's \<Rightarrow> error + 's" where
  "foldM f [] s = Inr s"
| "foldM f (x # xs) s = (case f x s of Inl e \<Rightarrow> Inl e | Inr s' \<Rightarrow> foldM f xs s')"

text \<open>The values of \<open>for (Index i = 0; i < n; ++i)\<close>, in order.\<close>

definition index_range :: "Index \<Rightarrow> Index list" where
  "index_range n = map of_nat [0..<unat n]"

definition insert_idx :: "Index \<Rightarrow> 'v \<Rightarrow> 'v SparseMatrix \<Rightarrow> error + 'v SparseMatrix" where
  "insert_idx i v m =
     (if i > rows m * cols m - 1 then Inl OutOfRange
      else Inr (m\<lparr>matrix := emplace i v (matrix m)\<rparr>))"

definition insert_ij :: "Index \<Rightarrow> Index \<Rightarrow> 'v \<Rightarrow> 'v SparseMatrix \<Rightarrow> error + 'v SparseMatrix" where
  "insert_ij i j v m = insert_idx (i * cols m + j) v m"

definition insert_or_assign_idx ::
  "Index \<Rightarrow> 'v \<Rightarrow> 'v SparseMatrix \<Rightarrow> error + 'v SparseMatrix" where
  "insert_or_assign_idx index v m =
     (if index > rows m * cols m - 1 then Inl OutOfRange
      else Inr (m\<lparr>matrix := AList.update index v (matrix m)\<rparr>))"

definition insert_or_assign_ij ::
  "Index \<Rightarrow> Index \<Rightarrow> 'v \<Rightarrow> 'v SparseMatrix \<Rightarrow> error + 'v SparseMatrix" where
  "insert_or_assign_ij i j v m = insert_or_assign_idx (i * cols m + j) v m"

definition contains_ij :: "Index \<Rightarrow> Index \<Rightarrow> 'v SparseMatrix \<Rightarrow> error + bool" where
  "contains_ij i j m =
     (if i \<ge> rows m \<or> j \<ge> cols m then Inl OutOfRange
      else Inr (map_of (matrix m) (i * cols m + j) \<noteq> None))"

definition contains_idx :: "Index \<Rightarrow> 'v SparseMatrix \<Rightarrow> error + bool" where
  "contains_idx index m =
     (if index > rows m * cols m - 1 then Inl OutOfRange
      else Inr (map_of (matrix m) index \<noteq> None))"

text \<open>\<open>operator()(i, j)\<close> and \<open>operator()(index)\<close>.\<close>

definition call_ij :: "Index \<Rightarrow> Index \<Rightarrow> 'v SparseMatrix \<Rightarrow> error + 'v" where
  "call_ij i j m =
     (if i \<ge> rows m \<or> j \<ge> cols m then Inl OutOfRange
      else Inr (case map_of (matrix m) (i * cols m + j) of
                  Some v \<Rightarrow> v | None \<Rightarrow> defaultReturn m))"

definition call_idx :: "Index \<Rightarrow> 'v SparseMatrix \<Rightarrow> error + 'v" where
  "call_idx index m =
     (if index \<ge> rows m * cols m then Inl OutOfRange
      else Inr (case map_of (matrix m) index of Some v \<Rightarrow> v | None \<Rightarrow> defaultReturn m))"

definition reshape_step ::
  "Index \<Rightarrow> Index \<Rightarrow> Index \<Rightarrow> Index \<times> 'v \<Rightarrow> 'v SparseMatrix \<Rightarrow> error + 'v SparseMatrix" where
  "reshape_step oldCols r c it m =
     (let m' = m\<lparr>matrix := AList.delete (fst it) (matrix m)\<rparr>
      in if fst it < r * c
         then (if oldCols = 0 then Inl DivisionByZero
               else insert_or_assign_ij (fst it div oldCols) (fst it mod oldCols) (snd it) m')
         else Inr m')"

definition reshape :: "Index \<Rightarrow> Index \<Rightarrow> 'v SparseMatrix \<Rightarrow> error + 'v SparseMatrix" where
  "reshape r c m =
     (let oldCols = cols m; copy = matrix m
      in foldM (reshape_step oldCols r c) copy (m\<lparr>rows := r, cols := c\<rparr>))"

definition getRow_step ::
  "Index \<Rightarrow> Index \<Rightarrow> bool \<Rightarrow> Index \<times> 'v \<Rightarrow> 'v SparseMatrix \<Rightarrow> error + 'v SparseMatrix" where
  "getRow_step c index keepIndex it row =
     (if c = 0 then Inl DivisionByZero
      else if fst it div c = index
      then (if keepIndex then insert_idx (fst it) (snd it) row
            else insert_idx (fst it mod c) (snd it) row)
      else Inr row)"

definition getRow :: "Index \<Rightarrow> bool \<Rightarrow> 'v::zero SparseMatrix \<Rightarrow> error + 'v SparseMatrix" where
  "getRow index keepIndex m =
     (if index \<ge> rows m then Inl OutOfRange
      else case (if keepIndex then reshape (rows m) (cols m) (SparseMatrix_dims 1 (cols m))
                 else Inr (SparseMatrix_dims 1 (cols m))) of
             Inl e \<Rightarrow> Inl e
           | Inr row \<Rightarrow> foldM (getRow_step (cols m) index keepIndex) (matrix m) row)"

text \<open>
  The degree vector and the Laplacian hold C++ \<open>int\<close> values. They count entries of one
  row, so they stay far below \<open>2^31\<close> for any matrix that fits in memory, and are
  unbounded integers here.
\<close>

definition degree_step :: "Index \<Rightarrow> Index \<times> 'v \<Rightarrow> int SparseMatrix \<Rightarrow> error + int SparseMatrix" where
  "degree_step c it degreeVector =
     (if c = 0 then Inl DivisionByZero
      else case call_ij (fst it div c) 0 degreeVector of
             Inl e \<Rightarrow> Inl e
           | Inr d \<Rightarrow> insert_or_assign_ij (fst it div c) 0 (d + 1) degreeVector)"

definition getDegreeVector :: "'v SparseMatrix \<Rightarrow> error + int SparseMatrix" where
  "getDegreeVector m =
     (if rows m \<noteq> cols m
      then Inl (RuntimeError ''getDegreeVector only works on square matrices'')
      else foldM (degree_step (cols m)) (matrix m) (SparseMatrix_dims (rows m) 1))"

definition laplacian_step ::
  "Index \<Rightarrow> Index \<times> 'v \<Rightarrow> int SparseMatrix \<Rightarrow> error + int SparseMatrix" where
  "laplacian_step c it laplacian =
     (if c = 0 then Inl DivisionByZero
      else insert_or_assign_ij (fst it div c) (fst it mod c) (- 1) laplacian)"

definition diagonal_step ::
  "int SparseMatrix \<Rightarrow> Index \<Rightarrow> int SparseMatrix \<Rightarrow> error + int SparseMatrix" where
  "diagonal_step degreeVector i laplacian =
     (case call_ij i 0 degreeVector of
        Inl e \<Rightarrow> Inl e
      | Inr d \<Rightarrow> insert_or_assign_ij i i d laplacian)"

definition getLaplacian :: "'v SparseMatrix \<Rightarrow> error + int SparseMatrix" where
  "getLaplacian m =
     (if rows m \<noteq> cols m
      then Inl (RuntimeError ''getLaplacian only works on square matrices'')
      else case foldM (laplacian_step (cols m)) (matrix m) (SparseMatrix_dims (rows m) (cols m)) of
             Inl e \<Rightarrow> Inl e
           | Inr laplacian \<Rightarrow>
               (case getDegreeVector m of
                  Inl e \<Rightarrow> Inl e
                | Inr degreeVector \<Rightarrow>
                    foldM (diagonal_step degreeVector) (index_range (rows m)) laplacian))"

text \<open>
  \<open>getNormRows\<close> computes in \<open>double\<close>. The arithmetic of \<open>double\<close> is the machine's and
  not part of the source, so it is a parameter: \<open>'d\<close> is the type of the values of
  \<open>double\<close>, its zero is the literal \<open>0.\<close>, and a \<open>double_arith\<close> holds the operations the
  function uses: \<open>+\<close>, \<open>std::abs\<close>, \<open>/\<close>, \<open><\<close>, the literal \<open>1.\<close> and
  \<open>std::numeric_limits<double>::epsilon()\<close>. Nothing is assumed about them; in
  particular sums and quotients may be rounded. The function is modelled for a matrix
  whose value type \<open>T\<close> is \<open>double\<close>.
\<close>

record 'd double_arith =
  d_add :: "'d \<Rightarrow> 'd \<Rightarrow> 'd"
  d_abs :: "'d \<Rightarrow> 'd"
  d_div :: "'d \<Rightarrow> 'd \<Rightarrow> 'd"
  d_less :: "'d \<Rightarrow> 'd \<Rightarrow> bool"
  d_one :: 'd
  d_epsilon :: 'd

text \<open>
  \<open>rowAbsSum\<close> is the loop \<open>for (auto& it : row) sum += std::abs(it.second)\<close>, started
  at \<open>0.\<close>; it adds in the order of the iteration.
\<close>

definition rowAbsSum :: "'d double_arith \<Rightarrow> 'd::zero SparseMatrix \<Rightarrow> 'd" where
  "rowAbsSum ops row = fold (\<lambda>it sum. d_add ops sum (d_abs ops (snd it))) (matrix row) 0"

definition normRows_step ::
  "'d double_arith \<Rightarrow> 'd::zero SparseMatrix \<Rightarrow> Index \<Rightarrow> 'd SparseMatrix
     \<Rightarrow> error + 'd SparseMatrix" where
  "normRows_step ops m index normRows =
     (case getRow index True m of
        Inl e \<Rightarrow> Inl e
      | Inr row \<Rightarrow>
          (let sum = rowAbsSum ops row;
               sum' = (if d_less ops sum (d_epsilon ops) then d_one ops else sum)
           in foldM (\<lambda>it nr. insert_idx (fst it) (d_div ops (snd it) sum') nr)
                (matrix row) normRows))"

definition getNormRows ::
  "'d double_arith \<Rightarrow> 'd::zero SparseMatrix \<Rightarrow> error + 'd SparseMatrix" where
  "getNormRows ops m =
     foldM (normRows_step ops m) (index_range (rows m)) (SparseMatrix_dims (rows m) (cols m))"


text \<open>
  Conditions on a matrix: every key addresses a cell, and the number of cells fits the
  index type. \<open>row_entries m i\<close> are the entries stored in row \<open>i\<close>, \<open>degree m i\<close> is
  their number.
\<close>

definition keys_in_range :: "'v SparseMatrix \<Rightarrow> bool" where
  "keys_in_range m = list_all (\<lambda>it. unat (fst it) < unat (rows m) * unat (cols m)) (matrix m)"

definition dims_representable :: "'v SparseMatrix \<Rightarrow> bool" where
  "dims_representable m = (unat (rows m) * unat (cols m) < 2 ^ 32)"

definition row_entries :: "'v SparseMatrix \<Rightarrow> Index \<Rightarrow> (Index \<times> 'v) list" where
  "row_entries m i = filter (\<lambda>it. fst it div cols m = i) (matrix m)"

definition degree :: "'v SparseMatrix \<Rightarrow> Index \<Rightarrow> nat" where
  "degree m i = length (row_entries m i)"

text \<open>
  What \<open>getNormRows\<close> makes of row \<open>i\<close>: \<open>row_divisor ops m i\<close> is the L1 norm of the
  row as the loop computes it, or \<open>1.\<close> when that is below \<open>epsilon\<close>, and
  \<open>scaled_row ops m i\<close> are the entries of the row divided by it.
\<close>

definition row_divisor :: "'d double_arith \<Rightarrow> 'd::zero SparseMatrix \<Rightarrow> Index \<Rightarrow> 'd" where
  "row_divisor ops m i =
     (let sum = fold (\<lambda>it sum. d_add ops sum (d_abs ops (snd it))) (row_entries m i) 0
      in if d_less ops sum (d_epsilon ops) then d_one ops else sum)"

definition scaled_row ::
  "'d double_arith \<Rightarrow> 'd::zero SparseMatrix \<Rightarrow> Index \<Rightarrow> (Index \<times> 'd) list" where
  "scaled_row ops m i =
     map (\<lambda>it. (fst it, d_div ops (snd it) (row_divisor ops m i))) (row_entries m i)"

section \<open>Example objects\<close>

definition node_full_example :: Node where
  "node_full_example =
     \<lparr>m_id = 0, m_coords = None, m_capacity = 1, m_agents = [(0, 7)],
      m_streetPriorities = {}, m_agentCounter = 1\<rparr>"

definition light_example :: TrafficLight where
  "light_example =
     \<lparr>m_id = 0, m_coords = None, m_capacity = 1, m_agents = [],
      m_streetPriorities = {1, 3}, m_agentCounter = 0,
      m_delay = Some (5, 5), m_counter = 0, m_phase = 0\<rparr>"

definition roundabout_example :: Roundabout where
  "roundabout_example = \<lparr>m_id = 0, m_coords = None, m_capacity = 3, m_queue = []\<rparr>"

definition roundabout_busy_example :: Roundabout where
  "roundabout_busy_example = \<lparr>m_id = 0, m_coords = None, m_capacity = 3, m_queue = [4]\<rparr>"

definition roundabout_full_example :: Roundabout where
  "roundabout_full_example = \<lparr>m_id = 0, m_coords = None, m_capacity = 1, m_queue = [4]\<rparr>"

definition matrix_example :: "int SparseMatrix" where
  "matrix_example = \<lparr>matrix = [(0, 1)], rows = 2, cols = 2, defaultReturn = 0\<rparr>"

definition laplacian_example :: "int SparseMatrix" where
  "laplacian_example =
     \<lparr>matrix = [(1, 5), (0, 1), (3, 7)], rows = 2, cols = 2, defaultReturn = 0\<rparr>"

definition laplacian_of_example :: "int SparseMatrix" where
  "laplacian_of_example =
     \<lparr>matrix = [(1, - 1), (0, 2), (3, 1)], rows = 2, cols = 2, defaultReturn = 0\<rparr>"



section \<open>Intersections: capacity\<close>

lemma length_emplace_mm: "length (emplace_mm k v xs) = Suc (length xs)"
  by (induction xs) auto

lemma length_erase_agent: "length (erase_agent a xs) \<le> length xs"
  by (induction a xs rule: erase_agent.induct) auto

text \<open>
  C1. An intersection never holds more agents than its capacity: both \<open>addAgent\<close>
  overloads raise on a full node and on an agent that is already there, \<open>setCapacity\<close>
  raises on a capacity below the number of queued agents, and every operation of the
  class \<open>Node\<close> takes a node within its capacity to a node within its capacity (the
  object as the call leaves it, whether it returns or throws).
\<close>

theorem node_within_capacity:
  assumes "within_capacity n"
  shows "(length (m_agents n) = unat (m_capacity n) \<longrightarrow>
            fst (addAgent a n) = Inl (RuntimeError ''Node is full'') \<and>
            fst (addAgent_angle angle a n) = Inl (RuntimeError ''Node is full''))
       \<and> (agentOnNode a (m_agents n) \<longrightarrow>
            isl (fst (addAgent a n)) \<and> isl (fst (addAgent_angle angle a n)))
       \<and> (unat c < length (m_agents n) \<longrightarrow> isl (fst (Node_setCapacity c n)))
       \<and> within_capacity (snd (addAgent a n))
       \<and> within_capacity (snd (addAgent_angle angle a n))
       \<and> within_capacity (snd (Node_setCapacity c n))
       \<and> within_capacity (snd (removeAgent a n))
       \<and> within_capacity (snd (agentCounter n))
       \<and> within_capacity (snd (setStreetPriorities ps n))
       \<and> within_capacity (snd (addStreetPriority s n))
       \<and> within_capacity (snd (setId i n))
       \<and> within_capacity (snd (setCoords xy n))"
proof -
  have add: "within_capacity (snd (addAgent a n))"
    using assms by (auto simp: within_capacity_def addAgent_def length_emplace_mm Let_def)
  have adda: "within_capacity (snd (addAgent_angle angle a n))"
    using assms by (auto simp: within_capacity_def addAgent_angle_def length_emplace_mm)
  have cap: "within_capacity (snd (Node_setCapacity c n))"
    using assms by (auto simp: within_capacity_def Node_setCapacity_def NodeConcept_setCapacity_def)
  have rem: "within_capacity (snd (removeAgent a n))"
    using assms length_erase_agent [of a "m_agents n"]
    by (auto simp: within_capacity_def removeAgent_def)
  have rest: "within_capacity (snd (agentCounter n))"
    "within_capacity (snd (setStreetPriorities ps n))"
    "within_capacity (snd (addStreetPriority s n))"
    "within_capacity (snd (setId i n))" "within_capacity (snd (setCoords xy n))"
    using assms
    by (simp_all add: within_capacity_def agentCounter_def setStreetPriorities_def
        addStreetPriority_def setId_def setCoords_def)
  have full: "length (m_agents n) = unat (m_capacity n) \<longrightarrow>
            fst (addAgent a n) = Inl (RuntimeError ''Node is full'') \<and>
            fst (addAgent_angle angle a n) = Inl (RuntimeError ''Node is full'')"
    by (simp add: addAgent_def addAgent_angle_def)
  have dup: "agentOnNode a (m_agents n) \<longrightarrow>
            isl (fst (addAgent a n)) \<and> isl (fst (addAgent_angle angle a n))"
    by (simp add: addAgent_def addAgent_angle_def)
  have small: "unat c < length (m_agents n) \<longrightarrow> isl (fst (Node_setCapacity c n))"
    by (simp add: Node_setCapacity_def)
  from add adda cap rem rest full dup small show ?thesis by blast
qed

theorem node_within_capacity_witness:
  "within_capacity node_full_example
   \<and> length (m_agents node_full_example) = unat (m_capacity node_full_example)
   \<and> agentOnNode 7 (m_agents node_full_example)
   \<and> unat (0 :: Size) < length (m_agents node_full_example)
   \<and> fst (addAgent 7 node_full_example) = Inl (RuntimeError ''Node is full'')
   \<and> isl (fst (Node_setCapacity 0 node_full_example))
   \<and> within_capacity (snd (addAgent 7 node_full_example))
   \<and> within_capacity (snd (removeAgent 7 node_full_example))"
proof -
  have w: "within_capacity node_full_example"
    by (simp add: within_capacity_def node_full_example_def)
  have f: "length (m_agents node_full_example) = unat (m_capacity node_full_example)"
    by (simp add: node_full_example_def)
  have p: "agentOnNode 7 (m_agents node_full_example)"
    by (simp add: node_full_example_def)
  have c: "unat (0 :: Size) < length (m_agents node_full_example)"
    by (simp add: node_full_example_def)
  from node_within_capacity [where a = 7 and c = 0, OF w] w f p c show ?thesis by simp
qed

section \<open>Traffic lights\<close>

text \<open>
  C3. With the delay \<open>(g, r)\<close> set, \<open>isGreen(streetId)\<close> returns whether
  \<open>counter < g\<close> agrees with the street having priority: a priority street is green
  exactly while the counter is in \<open>[0, g)\<close>, and, the counter being inside the cycle, any
  other street exactly while it is in \<open>[g, g + r)\<close>.
\<close>

theorem isGreen_street_priority:
  assumes "m_delay t = Some (g, r)"
  shows "isGreen_street s t = Inr ((m_counter t < g) = (s \<in> m_streetPriorities t))
       \<and> (s \<in> m_streetPriorities t \<longrightarrow>
            (isGreen_street s t = Inr True) = (m_counter t \<in> {0 ..< g}))
       \<and> (s \<notin> m_streetPriorities t \<longrightarrow> counter_in_cycle t \<longrightarrow>
            (isGreen_street s t = Inr True) = (m_counter t \<in> {g ..< g + r}))"
  using assms
  by (auto simp: isGreen_street_def isGreen_def counter_in_cycle_def)

theorem isGreen_street_priority_witness:
  "m_delay light_example = Some (5, 5)
   \<and> 1 \<in> m_streetPriorities light_example
   \<and> 2 \<notin> m_streetPriorities light_example
   \<and> counter_in_cycle light_example
   \<and> isGreen_street 1 light_example = Inr True
   \<and> isGreen_street 2 light_example = Inr False"
proof -
  have d: "m_delay light_example = Some (5, 5)" by (simp add: light_example_def)
  have c: "counter_in_cycle light_example" by (simp add: light_example_def counter_in_cycle_def)
  have p: "1 \<in> m_streetPriorities light_example" "2 \<notin> m_streetPriorities light_example"
    "m_counter light_example = 0"
    by (simp_all add: light_example_def)
  from isGreen_street_priority [OF d, of 1] isGreen_street_priority [OF d, of 2] d c p
  show ?thesis by simp
qed

text \<open>
  What the counter arithmetic does keep: a tick keeps the counter inside the cycle when
  the pending phase is inside it, and \<open>setPhase\<close> stores a phase below the cycle length
  as it is.
\<close>

lemma increaseCounter_in_cycle:
  assumes "m_delay t = Some (g, r)" and "m_counter t < g + r" and "m_phase t < g + r"
  shows "counter_in_cycle (snd (increaseCounter t))"
proof -
  from assms(2) have "m_counter t + 1 \<le> g + r"
    by (simp add: inc_le)
  then have "m_counter t + 1 \<noteq> g + r \<Longrightarrow> m_counter t + 1 < g + r"
    by simp
  with assms show ?thesis
    by (auto simp: increaseCounter_def counter_in_cycle_def Let_def)
qed

lemma setPhase_below_cycle:
  "m_delay t = Some (g, r) \<Longrightarrow> p < g + r \<Longrightarrow>
   setPhase p t = (Inr (), t\<lparr>m_counter := p, m_phase := 0\<rparr>)"
  by (auto simp: setPhase_def)

text \<open>
  C2. The counter is meant to stay in \<open>[0, g + r)\<close>. It does not: with the delay
  \<open>(5, 5)\<close> and the counter at 0, \<open>setPhase(10)\<close> stores 10 (the test is
  \<open>phase > g + r\<close>, so the cycle length itself is not reduced); \<open>setPhaseAfterCycle(10)\<close>
  queues 10 and the tick that ends the cycle stores it; and \<open>setDelay((2, 10))\<close> on a light
  with delay \<open>(10, 10)\<close> and counter 3 computes \<open>2 - (10 - 3)\<close>, which wraps.
\<close>

theorem counter_leaves_cycle:
  "counter_in_cycle light_example
   \<and> snd (setPhase 10 light_example) = light_example\<lparr>m_counter := 10\<rparr>
   \<and> \<not> counter_in_cycle (snd (setPhase 10 light_example))
   \<and> counter_in_cycle (light_example\<lparr>m_counter := 9\<rparr>)
   \<and> snd (increaseCounter (snd (setPhaseAfterCycle 10 (light_example\<lparr>m_counter := 9\<rparr>))))
       = light_example\<lparr>m_counter := 10\<rparr>
   \<and> counter_in_cycle (light_example\<lparr>m_delay := Some (10, 10), m_counter := 3\<rparr>)
   \<and> snd (setDelay_pair (2, 10) (light_example\<lparr>m_delay := Some (10, 10), m_counter := 3\<rparr>))
       = light_example\<lparr>m_delay := Some (2, 10), m_counter := 4294967291\<rparr>
   \<and> \<not> counter_in_cycle (light_example\<lparr>m_delay := Some (2, 10), m_counter := 4294967291\<rparr>)"
  by (simp add: light_example_def counter_in_cycle_def setPhase_def setPhaseAfterCycle_def
      increaseCounter_def setDelay_pair_def Let_def)

text \<open>
  C5. \<open>setPhase\<close> raises without a delay and clears the pending phase, but the counter
  it stores is not the phase modulo \<open>g + r\<close>: with the delay \<open>(5, 5)\<close>, \<open>setPhase(10)\<close>
  stores 10 and \<open>setPhase(25)\<close> stores 15.
\<close>

theorem setPhase_not_modulo:
  "fst (setPhase 10 (light_example\<lparr>m_delay := None\<rparr>))
     = Inl (RuntimeError ''TrafficLight's delay has not been set.'')
   \<and> setPhase 10 (light_example\<lparr>m_phase := 3\<rparr>) = (Inr (), light_example\<lparr>m_counter := 10\<rparr>)
   \<and> (10 :: Delay) mod (5 + 5) = 0
   \<and> setPhase 25 light_example = (Inr (), light_example\<lparr>m_counter := 15\<rparr>)
   \<and> (25 :: Delay) mod (5 + 5) = 5"
  by (simp add: light_example_def setPhase_def Let_def)

section \<open>Roundabouts\<close>

text \<open>
  C8. \<open>dequeue\<close> raises exactly on an empty queue; otherwise it returns the front of the
  queue and removes it, and \<open>enqueue\<close> puts an agent at the back. So three distinct
  agents enqueued on an empty roundabout of capacity 3 or more leave in the order they
  came, and the roundabout is empty again. \<open>enqueue\<close> takes no angle.
\<close>

theorem roundabout_fifo:
  "(isl (fst (dequeue rb)) = (m_queue rb = []))
   \<and> (m_queue rb = a # rest \<longrightarrow> dequeue rb = (Inr a, rb\<lparr>m_queue := rest\<rparr>))
   \<and> (fst (enqueue x rb) = Inr () \<longrightarrow> m_queue (snd (enqueue x rb)) = m_queue rb @ [x])
   \<and> (m_queue rb0 = [] \<and> 3 \<le> unat (m_capacity rb0) \<and> distinct [A, B, C] \<longrightarrow>
        (let rb1 = snd (enqueue A rb0); rb2 = snd (enqueue B rb1); rb3 = snd (enqueue C rb2);
             d1 = dequeue rb3; d2 = dequeue (snd d1); d3 = dequeue (snd d2)
         in fst (enqueue A rb0) = Inr () \<and> fst (enqueue B rb1) = Inr ()
            \<and> fst (enqueue C rb2) = Inr ()
            \<and> fst d1 = Inr A \<and> fst d2 = Inr B \<and> fst d3 = Inr C \<and> snd d3 = rb0))"
proof -
  have 1: "isl (fst (dequeue rb)) = (m_queue rb = [])"
    by (simp add: dequeue_def split: list.split)
  have 2: "m_queue rb = a # rest \<longrightarrow> dequeue rb = (Inr a, rb\<lparr>m_queue := rest\<rparr>)"
    by (simp add: dequeue_def)
  have 3: "fst (enqueue x rb) = Inr () \<longrightarrow> m_queue (snd (enqueue x rb)) = m_queue rb @ [x]"
    by (simp add: enqueue_def)
  have 4: "m_queue rb0 = [] \<and> 3 \<le> unat (m_capacity rb0) \<and> distinct [A, B, C] \<longrightarrow>
        (let rb1 = snd (enqueue A rb0); rb2 = snd (enqueue B rb1); rb3 = snd (enqueue C rb2);
             d1 = dequeue rb3; d2 = dequeue (snd d1); d3 = dequeue (snd d2)
         in fst (enqueue A rb0) = Inr () \<and> fst (enqueue B rb1) = Inr ()
            \<and> fst (enqueue C rb2) = Inr ()
            \<and> fst d1 = Inr A \<and> fst d2 = Inr B \<and> fst d3 = Inr C \<and> snd d3 = rb0)"
  proof
    assume h: "m_queue rb0 = [] \<and> 3 \<le> unat (m_capacity rb0) \<and> distinct [A, B, C]"
    then have e1: "enqueue A rb0 = (Inr (), rb0\<lparr>m_queue := [A]\<rparr>)"
      by (simp add: enqueue_def)
    from h have e2: "enqueue B (rb0\<lparr>m_queue := [A]\<rparr>) = (Inr (), rb0\<lparr>m_queue := [A, B]\<rparr>)"
      by (simp add: enqueue_def)
    from h have e3: "enqueue C (rb0\<lparr>m_queue := [A, B]\<rparr>) = (Inr (), rb0\<lparr>m_queue := [A, B, C]\<rparr>)"
      by (simp add: enqueue_def)
    from h show "(let rb1 = snd (enqueue A rb0); rb2 = snd (enqueue B rb1);
             rb3 = snd (enqueue C rb2);
             d1 = dequeue rb3; d2 = dequeue (snd d1); d3 = dequeue (snd d2)
         in fst (enqueue A rb0) = Inr () \<and> fst (enqueue B rb1) = Inr ()
            \<and> fst (enqueue C rb2) = Inr ()
            \<and> fst d1 = Inr A \<and> fst d2 = Inr B \<and> fst d3 = Inr C \<and> snd d3 = rb0)"
      by (simp add: e1 e2 e3 dequeue_def Let_def)
  qed
  from 1 2 3 4 show ?thesis by blast
qed

theorem roundabout_fifo_witness:
  "m_queue roundabout_busy_example = [4]
   \<and> fst (enqueue 5 roundabout_busy_example) = Inr ()
   \<and> m_queue roundabout_example = [] \<and> 3 \<le> unat (m_capacity roundabout_example)
   \<and> distinct [10, 11, 12 :: Id]
   \<and> dequeue roundabout_busy_example = (Inr 4, roundabout_busy_example\<lparr>m_queue := []\<rparr>)
   \<and> m_queue (snd (enqueue 5 roundabout_busy_example)) = [4, 5]
   \<and> fst (dequeue (snd (enqueue 12 (snd (enqueue 11 (snd (enqueue 10 roundabout_example)))))))
       = Inr 10"
proof -
  have q: "m_queue roundabout_busy_example = [4]" by (simp add: roundabout_busy_example_def)
  have e: "fst (enqueue 5 roundabout_busy_example) = Inr ()"
    by (simp add: roundabout_busy_example_def enqueue_def)
  have h: "m_queue roundabout_example = [] \<and> 3 \<le> unat (m_capacity roundabout_example)
           \<and> distinct [10, 11, 12 :: Id]"
    by (simp add: roundabout_example_def)
  from roundabout_fifo [of roundabout_busy_example 4 "[]" 5 roundabout_example 10 11 12] q e h
  show ?thesis
    by (simp add: Let_def)
qed

section \<open>Errors leave the node as it was\<close>

text \<open>
  C10. \<open>addAgent\<close> (both overloads) and \<open>enqueue\<close> raise exactly when the node is full
  or the agent is already there, and then every field of the node, the agents and the
  agent counter among them, is as it was before the call.
\<close>

theorem add_atomic_on_error:
  "(isl (fst (addAgent a n)) \<longrightarrow> snd (addAgent a n) = n)
   \<and> (isl (fst (addAgent_angle angle a n)) \<longrightarrow> snd (addAgent_angle angle a n) = n)
   \<and> (isl (fst (enqueue b rb)) \<longrightarrow> snd (enqueue b rb) = rb)
   \<and> (isl (fst (addAgent a n))
        = (length (m_agents n) = unat (m_capacity n) \<or> agentOnNode a (m_agents n)))
   \<and> (isl (fst (addAgent_angle angle a n))
        = (length (m_agents n) = unat (m_capacity n) \<or> agentOnNode a (m_agents n)))
   \<and> (isl (fst (enqueue b rb))
        = (length (m_queue rb) = unat (m_capacity rb) \<or> agentOnRoundabout b (m_queue rb)))"
  by (simp add: addAgent_def addAgent_angle_def enqueue_def Let_def)

theorem add_atomic_on_error_witness:
  "isl (fst (addAgent 7 node_full_example))
   \<and> isl (fst (addAgent_angle 0 7 node_full_example))
   \<and> isl (fst (enqueue 4 roundabout_full_example))
   \<and> snd (addAgent 7 node_full_example) = node_full_example
   \<and> snd (addAgent_angle 0 7 node_full_example) = node_full_example
   \<and> snd (enqueue 4 roundabout_full_example) = roundabout_full_example"
proof -
  have r: "isl (fst (addAgent 7 node_full_example))"
    "isl (fst (addAgent_angle 0 7 node_full_example))"
    "isl (fst (enqueue 4 roundabout_full_example))"
    by (simp_all add: addAgent_def addAgent_angle_def enqueue_def node_full_example_def
        roundabout_full_example_def)
  from add_atomic_on_error [of 7 node_full_example 0 4 roundabout_full_example] r
  show ?thesis by simp
qed

section \<open>Sparse matrix: insertion\<close>

lemma map_of_emplace:
  "map_of (emplace k v xs) k' =
     (if k' = k then (case map_of xs k of Some old \<Rightarrow> Some old | None \<Rightarrow> Some v)
      else map_of xs k')"
  by (auto simp: emplace_def map_of_append map_add_def split: option.splits)

lemma map_of_update: "map_of (AList.update k v xs) = (map_of xs)(k \<mapsto> v)"
  by (rule update_conv')

text \<open>
  C4, as the code has it. Both insertions raise \<open>OutOfRange\<close> when the linear index
  \<open>i * cols + j\<close> is above \<open>rows * cols - 1\<close>. Otherwise \<open>insert\<close> on a cell that holds
  a value returns normally and leaves the matrix as it is (the old value stays), \<open>insert\<close>
  on a free cell stores the value, and \<open>insert_or_assign\<close> stores the value in either
  case; for \<open>i < rows\<close> and \<open>j < cols\<close> the cell then reads back as the value.
\<close>

theorem insert_keeps_assign_overwrites:
  "(i * cols m + j > rows m * cols m - 1 \<longrightarrow>
      insert_ij i j v m = Inl OutOfRange \<and> insert_or_assign_ij i j v m = Inl OutOfRange)
   \<and> (\<not> i * cols m + j > rows m * cols m - 1 \<longrightarrow>
        (map_of (matrix m) (i * cols m + j) = Some old \<longrightarrow> insert_ij i j v m = Inr m)
        \<and> (map_of (matrix m) (i * cols m + j) = None \<longrightarrow>
             insert_ij i j v m = Inr (m\<lparr>matrix := matrix m @ [(i * cols m + j, v)]\<rparr>)
             \<and> map_of (matrix m @ [(i * cols m + j, v)]) (i * cols m + j) = Some v)
        \<and> insert_or_assign_ij i j v m
             = Inr (m\<lparr>matrix := AList.update (i * cols m + j) v (matrix m)\<rparr>)
        \<and> map_of (AList.update (i * cols m + j) v (matrix m)) (i * cols m + j) = Some v
        \<and> (i < rows m \<and> j < cols m \<longrightarrow>
             call_ij i j (m\<lparr>matrix := AList.update (i * cols m + j) v (matrix m)\<rparr>) = Inr v
             \<and> (map_of (matrix m) (i * cols m + j) = None \<longrightarrow>
                  call_ij i j (m\<lparr>matrix := matrix m @ [(i * cols m + j, v)]\<rparr>) = Inr v)))"
  by (auto simp: insert_ij_def insert_idx_def insert_or_assign_ij_def insert_or_assign_idx_def
      emplace_def call_ij_def map_of_update map_of_append map_add_def)

theorem insert_keeps_assign_overwrites_witness:
  "\<not> 0 * cols matrix_example + 0 > rows matrix_example * cols matrix_example - 1
   \<and> map_of (matrix matrix_example) (0 * cols matrix_example + 0) = Some 1
   \<and> insert_ij 0 0 2 matrix_example = Inr matrix_example
   \<and> insert_or_assign_ij 0 0 2 matrix_example = Inr (matrix_example\<lparr>matrix := [(0, 2)]\<rparr>)
   \<and> map_of (matrix matrix_example) (0 * cols matrix_example + 1) = None
   \<and> insert_ij 0 1 2 matrix_example = Inr (matrix_example\<lparr>matrix := [(0, 1), (1, 2)]\<rparr>)
   \<and> 5 * cols matrix_example + 0 > rows matrix_example * cols matrix_example - 1
   \<and> insert_ij 5 0 2 matrix_example = Inl OutOfRange"
proof -
  have a: "\<not> 0 * cols matrix_example + 0 > rows matrix_example * cols matrix_example - 1"
    "map_of (matrix matrix_example) (0 * cols matrix_example + 0) = Some 1"
    "map_of (matrix matrix_example) (0 * cols matrix_example + 1) = None"
    "\<not> 0 * cols matrix_example + 1 > rows matrix_example * cols matrix_example - 1"
    "5 * cols matrix_example + 0 > rows matrix_example * cols matrix_example - 1"
    "0 < rows matrix_example" "0 < cols matrix_example" "1 < cols matrix_example"
    "cols matrix_example = 2" "matrix matrix_example = [(0, 1)]"
    by (simp_all add: matrix_example_def)
  from insert_keeps_assign_overwrites [where i = 0 and m = matrix_example and j = 0 and v = 2 and old = 1]
    insert_keeps_assign_overwrites [where i = 0 and m = matrix_example and j = 1 and v = 2 and old = 1]
    insert_keeps_assign_overwrites [where i = 5 and m = matrix_example and j = 0 and v = 2 and old = 1] a
  show ?thesis by simp
qed

text \<open>
  C4 as stated fails: cell \<open>(0, 0)\<close> of the example holds 1, \<open>insert(0, 0, 2)\<close> does not
  fail, and the cell does not hold 2 afterwards.
\<close>

theorem insert_occupied_counterexample:
  "call_ij 0 0 matrix_example = Inr 1
   \<and> insert_ij 0 0 2 matrix_example = Inr matrix_example
   \<and> call_ij 0 0 matrix_example \<noteq> Inr 2"
  by (simp add: matrix_example_def insert_ij_def insert_idx_def emplace_def call_ij_def)

text \<open>
  C9. The index type is \<open>uint32_t\<close>, so the bound is computed in unsigned arithmetic.
  When \<open>rows * cols = 0\<close>, the bound \<open>rows * cols - 1\<close> wraps to the largest index,
  so no linear index is out of range: \<open>insert(i, v)\<close> and \<open>contains(i)\<close> raise nothing,
  and after the insertion the matrix of no cells contains \<open>i\<close> (with the value \<open>v\<close>
  when it was not there before).
\<close>

theorem dimensionless_bound_wraps:
  assumes "rows m * cols m = 0"
  shows "rows m * cols m - 1 = - 1
       \<and> \<not> i > rows m * cols m - 1
       \<and> insert_idx i v m = Inr (m\<lparr>matrix := emplace i v (matrix m)\<rparr>)
       \<and> contains_idx i m = Inr (map_of (matrix m) i \<noteq> None)
       \<and> contains_idx i (m\<lparr>matrix := emplace i v (matrix m)\<rparr>) = Inr True
       \<and> (map_of (matrix m) i = None \<longrightarrow> map_of (emplace i v (matrix m)) i = Some v)"
  using assms
  by (auto simp: insert_idx_def contains_idx_def map_of_emplace split: option.splits)

theorem dimensionless_bound_wraps_witness:
  "rows (SparseMatrix_default :: int SparseMatrix) * cols (SparseMatrix_default :: int SparseMatrix) = 0
   \<and> map_of (matrix (SparseMatrix_default :: int SparseMatrix)) 4294967295 = None
   \<and> insert_idx 4294967295 8 (SparseMatrix_default :: int SparseMatrix)
       = Inr \<lparr>matrix = [(4294967295, 8)], rows = 0, cols = 0, defaultReturn = 0\<rparr>
   \<and> contains_idx 4294967295 (SparseMatrix_default :: int SparseMatrix) = Inr False
   \<and> contains_idx 4294967295 \<lparr>matrix = [(4294967295, 8 :: int)], rows = 0, cols = 0, defaultReturn = 0\<rparr>
       = Inr True"
proof -
  have z: "rows (SparseMatrix_default :: int SparseMatrix) * cols (SparseMatrix_default :: int SparseMatrix) = 0"
    by (simp add: SparseMatrix_default_def)
  have n: "map_of (matrix (SparseMatrix_default :: int SparseMatrix)) 4294967295 = None"
    by (simp add: SparseMatrix_default_def)
  from dimensionless_bound_wraps [OF z, where i = 4294967295 and v = 8] z n
  show ?thesis by (simp add: SparseMatrix_default_def emplace_def)
qed


section \<open>Sparse matrix: index arithmetic and loops\<close>

lemma unat_dims:
  fixes r c :: Index
  shows "unat r * unat c < 2 ^ 32 \<Longrightarrow> unat (r * c) = unat r * unat c"
  using unat_mult_lem [of r c] by simp

lemma key_in_bound:
  fixes r c k :: Index
  assumes "unat k < unat r * unat c" and "unat r * unat c < 2 ^ 32"
  shows "\<not> k > r * c - 1"
proof -
  from assms have u: "unat k < unat (r * c)"
    by (simp add: unat_dims)
  then have "r * c \<noteq> 0"
    by (auto simp: unat_gt_0 [symmetric] simp del: unat_gt_0)
  then have "unat (r * c - 1) = unat (r * c) - 1"
    by (rule unat_minus_one)
  with u have "k \<le> r * c - 1"
    by (simp add: word_le_nat_alt)
  then show ?thesis by simp
qed

lemma row_lt_iff:
  fixes r c k :: Index
  assumes "c \<noteq> 0"
  shows "(k div c < r) = (unat k < unat r * unat c)"
proof -
  from assms have "0 < unat c" by (simp add: unat_gt_0)
  then show ?thesis
    by (simp add: word_less_nat_alt unat_div div_less_iff_less_mult)
qed

lemma unat_cell:
  fixes i j r c :: Index
  assumes "i < r" and "j < c" and "unat r * unat c < 2 ^ 32"
  shows "unat (i * c + j) = unat i * unat c + unat j"
    and "unat (i * c + j) < unat r * unat c"
proof -
  from assms(1,2) have ij: "unat i < unat r" "unat j < unat c"
    by (simp_all add: word_less_nat_alt)
  then have "unat i * unat c + unat j < Suc (unat i) * unat c" by simp
  also from ij have "\<dots> \<le> unat r * unat c"
    by (intro mult_le_mono1) simp
  finally have b: "unat i * unat c + unat j < unat r * unat c" .
  with assms(3) have lt: "unat i * unat c + unat j < 2 ^ 32" by simp
  then have "unat i * unat c < 2 ^ 32" by simp
  then have "unat (i * c) = unat i * unat c" by (rule unat_dims)
  with lt show "unat (i * c + j) = unat i * unat c + unat j"
    using unat_add_lem [of "i * c" j] by simp
  with b show "unat (i * c + j) < unat r * unat c" by simp
qed

lemma cell_div_mod:
  fixes i j r c :: Index
  assumes "i < r" and "j < c" and "unat r * unat c < 2 ^ 32"
  shows "(i * c + j) div c = i" and "(i * c + j) mod c = j"
proof -
  from assms(2) have j: "unat j < unat c" by (simp add: word_less_nat_alt)
  have u: "unat (i * c + j) = unat i * unat c + unat j"
    using assms by (rule unat_cell)
  have "unat ((i * c + j) div c) = unat i"
    using j by (simp add: unat_div u)
  then show "(i * c + j) div c = i" by (simp add: word_unat_eq_iff)
  have "unat ((i * c + j) mod c) = unat j"
    using j by (simp add: unat_mod u)
  then show "(i * c + j) mod c = j" by (simp add: word_unat_eq_iff)
qed

lemma key_div_mod:
  fixes k c :: Index
  shows "k div c * c + k mod c = k"
  by (rule div_mult_mod_eq)

lemma mem_index_range: "(i \<in> set (index_range n)) = (i < n)"
proof
  assume "i \<in> set (index_range n)"
  then obtain m where m: "m < unat n" "i = of_nat m"
    by (auto simp: index_range_def)
  then have "unat i = m"
    by (metis le_unat_uoi less_imp_le_nat)
  with m show "i < n" by (simp add: word_less_nat_alt)
next
  assume "i < n"
  then have "unat i < unat n" by (simp add: word_less_nat_alt)
  then show "i \<in> set (index_range n)"
    unfolding index_range_def set_map set_upt
    by (intro image_eqI [where x = "unat i"]) simp_all
qed

lemma foldM_invariant:
  assumes "I pre s"
    and "\<And>p x s. I p s \<Longrightarrow> x \<in> set xs \<Longrightarrow> \<exists>s'. f x s = Inr s' \<and> I (p @ [x]) s'"
  shows "\<exists>s'. foldM f xs s = Inr s' \<and> I (pre @ xs) s'"
  using assms
proof (induction xs arbitrary: pre s)
  case Nil
  then show ?case by simp
next
  case (Cons x xs)
  from Cons.prems obtain s1 where s1: "f x s = Inr s1" "I (pre @ [x]) s1"
    by (meson list.set_intros(1))
  have "\<exists>s'. foldM f xs s1 = Inr s' \<and> I ((pre @ [x]) @ xs) s'"
    by (rule Cons.IH [OF s1(2)]) (simp add: Cons.prems(2))
  with s1 show ?case by simp
qed


section \<open>Sparse matrix: degree vector and Laplacian\<close>

lemma degree_step_ok:
  fixes d :: "int SparseMatrix"
  assumes "rows d = n" and "cols d = 1" and "n \<noteq> 0" and "fst x div n < n"
  shows "degree_step n x d =
           Inr (d\<lparr>matrix := AList.update (fst x div n)
                  ((case map_of (matrix d) (fst x div n) of
                      Some v \<Rightarrow> v | None \<Rightarrow> defaultReturn d) + 1) (matrix d)\<rparr>)"
proof -
  from assms(4) have "unat (fst x div n) < unat n * unat (1 :: Index)"
    by (simp add: word_less_nat_alt)
  moreover have "unat n * unat (1 :: Index) < 2 ^ 32"
    using unsigned_less [of n] by simp
  ultimately have "\<not> fst x div n > n * 1 - 1"
    by (rule key_in_bound)
  with assms show ?thesis
    by (simp add: degree_step_def call_ij_def insert_or_assign_ij_def insert_or_assign_idx_def)
qed

lemma laplacian_step_ok:
  fixes l :: "int SparseMatrix"
  assumes "rows l = n" and "cols l = n" and "unat (fst x) < unat n * unat n"
    and "unat n * unat n < 2 ^ 32"
  shows "laplacian_step n x l = Inr (l\<lparr>matrix := AList.update (fst x) (- 1) (matrix l)\<rparr>)"
proof -
  from assms(3) have "n \<noteq> 0"
    by (cases "n = 0") simp_all
  moreover from assms(3,4) have "\<not> fst x > n * n - 1"
    by (rule key_in_bound)
  ultimately show ?thesis
    using assms(1,2)
    by (simp add: laplacian_step_def insert_or_assign_ij_def insert_or_assign_idx_def key_div_mod)
qed

lemma diagonal_step_ok:
  fixes l d :: "int SparseMatrix"
  assumes "rows l = n" and "cols l = n" and "rows d = n" and "cols d = 1" and "i < n"
    and "unat n * unat n < 2 ^ 32"
  shows "diagonal_step d i l =
           Inr (l\<lparr>matrix := AList.update (i * n + i)
                  (case map_of (matrix d) i of Some v \<Rightarrow> v | None \<Rightarrow> defaultReturn d)
                  (matrix l)\<rparr>)"
proof -
  from assms(5,6) have "unat (i * n + i) < unat n * unat n"
    by (intro unat_cell(2)) simp_all
  from this assms(6) have "\<not> i * n + i > n * n - 1"
    by (rule key_in_bound)
  with assms show ?thesis
    by (simp add: diagonal_step_def call_ij_def insert_or_assign_ij_def insert_or_assign_idx_def)
qed


lemma getDegreeVector_result:
  fixes A :: "'v SparseMatrix"
  assumes sq: "rows A = cols A" and kr: "keys_in_range A" and rep: "dims_representable A"
  shows "\<exists>d. getDegreeVector A = Inr d \<and> rows d = rows A \<and> cols d = 1 \<and> defaultReturn d = 0
           \<and> (\<forall>r. map_of (matrix d) r
                  = (if degree A r = 0 then None else Some (int (degree A r))))"
proof -
  define n where "n = cols A"
  define cnt where "cnt pre r = length (filter (\<lambda>it. fst it div n = r) pre)"
    for pre :: "(Index \<times> 'v) list" and r
  define I where "I pre d \<longleftrightarrow> rows d = n \<and> cols d = 1 \<and> defaultReturn d = 0
      \<and> (\<forall>r. map_of (matrix d) r = (if cnt pre r = 0 then None else Some (int (cnt pre r))))"
    for pre and d :: "int SparseMatrix"
  have init: "I [] (SparseMatrix_dims n 1)"
    by (simp add: I_def cnt_def SparseMatrix_dims_def)
  have step: "\<exists>s'. degree_step n x s = Inr s' \<and> I (p @ [x]) s'"
    if "I p s" and "x \<in> set (matrix A)" for p x s
  proof -
    from kr that(2) sq have k: "unat (fst x) < unat n * unat n"
      by (auto simp: keys_in_range_def list_all_iff n_def)
    then have n0: "n \<noteq> 0" by (cases "n = 0") simp_all
    with k have r: "fst x div n < n" by (simp add: row_lt_iff)
    from that(1) have s: "rows s = n" "cols s = 1" by (simp_all add: I_def)
    have "I (p @ [x]) (s\<lparr>matrix := AList.update (fst x div n)
                  ((case map_of (matrix s) (fst x div n) of
                      Some v \<Rightarrow> v | None \<Rightarrow> defaultReturn s) + 1) (matrix s)\<rparr>)"
      using that(1) by (auto simp: I_def cnt_def map_of_update)
    with degree_step_ok [OF s n0 r] show ?thesis by blast
  qed
  from foldM_invariant [of I "[]" "SparseMatrix_dims n 1" "matrix A" "degree_step n", OF init step]
  obtain d where "foldM (degree_step n) (matrix A) (SparseMatrix_dims n 1) = Inr d"
    and "I (matrix A) d" by auto
  with sq show ?thesis
    by (auto simp: getDegreeVector_def I_def cnt_def degree_def row_entries_def n_def)
qed

lemma laplacian_entries_result:
  fixes A :: "'v SparseMatrix"
  assumes sq: "rows A = cols A" and kr: "keys_in_range A" and rep: "dims_representable A"
  shows "\<exists>l. foldM (laplacian_step (cols A)) (matrix A) (SparseMatrix_dims (rows A) (cols A)) = Inr l
           \<and> rows l = rows A \<and> cols l = cols A \<and> defaultReturn l = 0
           \<and> (\<forall>k. map_of (matrix l) k
                  = (if map_of (matrix A) k = None then None else Some (- 1)))"
proof -
  define n where "n = cols A"
  define I where "I pre l \<longleftrightarrow> rows l = n \<and> cols l = n \<and> defaultReturn l = 0
      \<and> (\<forall>k. map_of (matrix l) k = (if k \<in> fst ` set pre then Some (- 1) else None))"
    for pre :: "(Index \<times> 'v) list" and l :: "int SparseMatrix"
  from rep sq have nn: "unat n * unat n < 2 ^ 32"
    by (simp add: dims_representable_def n_def)
  have init: "I [] (SparseMatrix_dims n n)"
    by (simp add: I_def SparseMatrix_dims_def)
  have step: "\<exists>s'. laplacian_step n x s = Inr s' \<and> I (p @ [x]) s'"
    if "I p s" and "x \<in> set (matrix A)" for p x s
  proof -
    from kr that(2) sq have k: "unat (fst x) < unat n * unat n"
      by (auto simp: keys_in_range_def list_all_iff n_def)
    from that(1) have s: "rows s = n" "cols s = n" by (simp_all add: I_def)
    have "I (p @ [x]) (s\<lparr>matrix := AList.update (fst x) (- 1) (matrix s)\<rparr>)"
      using that(1) by (auto simp: I_def map_of_update)
    with laplacian_step_ok [OF s k nn] show ?thesis by blast
  qed
  from foldM_invariant [of I "[]" "SparseMatrix_dims n n" "matrix A" "laplacian_step n", OF init step]
  obtain l where "foldM (laplacian_step n) (matrix A) (SparseMatrix_dims n n) = Inr l"
    and "I (matrix A) l" by auto
  with sq show ?thesis
    by (auto simp: I_def n_def map_of_eq_None_iff)
qed

lemma laplacian_diagonal_result:
  fixes l d :: "int SparseMatrix"
  assumes l: "rows l = n" "cols l = n" and d: "rows d = n" "cols d = 1"
    and nn: "unat n * unat n < 2 ^ 32"
  shows "\<exists>l'. foldM (diagonal_step d) (index_range n) l = Inr l'
           \<and> rows l' = n \<and> cols l' = n \<and> defaultReturn l' = defaultReturn l
           \<and> (\<forall>i j. i < n \<longrightarrow> j < n \<longrightarrow> map_of (matrix l') (i * n + j)
                  = (if i = j
                     then Some (case map_of (matrix d) i of Some v \<Rightarrow> v | None \<Rightarrow> defaultReturn d)
                     else map_of (matrix l) (i * n + j)))"
proof -
  define I where "I pre l' \<longleftrightarrow> rows l' = n \<and> cols l' = n \<and> defaultReturn l' = defaultReturn l
      \<and> (\<forall>i j. i < n \<longrightarrow> j < n \<longrightarrow> map_of (matrix l') (i * n + j)
                  = (if i = j \<and> i \<in> set pre
                     then Some (case map_of (matrix d) i of Some v \<Rightarrow> v | None \<Rightarrow> defaultReturn d)
                     else map_of (matrix l) (i * n + j)))"
    for pre :: "Index list" and l' :: "int SparseMatrix"
  have init: "I [] l"
    by (simp add: I_def l)
  have inj: "(i * n + j = x * n + x) = (i = x \<and> j = x)"
    if "i < n" "j < n" "x < n" for i j x
  proof
    assume e: "i * n + j = x * n + x"
    from cell_div_mod [OF that(1,2) nn] cell_div_mod [OF that(3,3) nn] e
    show "i = x \<and> j = x" by metis
  qed simp
  have step: "\<exists>s'. diagonal_step d x s = Inr s' \<and> I (p @ [x]) s'"
    if "I p s" and "x \<in> set (index_range n)" for p x s
  proof -
    from that(2) have x: "x < n" by (simp add: mem_index_range)
    from that(1) have s: "rows s = n" "cols s = n" by (simp_all add: I_def)
    have "I (p @ [x]) (s\<lparr>matrix := AList.update (x * n + x)
                  (case map_of (matrix d) x of Some v \<Rightarrow> v | None \<Rightarrow> defaultReturn d)
                  (matrix s)\<rparr>)"
      using that(1) x by (auto simp: I_def map_of_update inj)
    with diagonal_step_ok [OF s d x nn] show ?thesis by blast
  qed
  from foldM_invariant [of I "[]" l "index_range n" "diagonal_step d", OF init step]
  obtain l' where "foldM (diagonal_step d) (index_range n) l = Inr l'"
    and "I (index_range n) l'" by auto
  then show ?thesis
    by (auto simp: I_def mem_index_range)
qed


text \<open>
  C6, as the code has it. For a square matrix whose keys address cells and whose cell
  count fits the index type, \<open>getDegreeVector\<close> and \<open>getLaplacian\<close> return; entry \<open>i\<close>
  of the degree vector is the number of entries stored in row \<open>i\<close>; the diagonal cell
  \<open>(i, i)\<close> of the Laplacian is that number (a stored diagonal entry is counted, its value
  is not subtracted); an off-diagonal cell is \<open>-1\<close> where the matrix stores an entry,
  whatever its value, and 0 elsewhere.
\<close>

theorem getLaplacian_entries:
  fixes A :: "'v SparseMatrix"
  assumes sq: "rows A = cols A" and kr: "keys_in_range A" and rep: "dims_representable A"
  shows "\<exists>L d. getLaplacian A = Inr L \<and> getDegreeVector A = Inr d
           \<and> rows L = rows A \<and> cols L = cols A \<and> rows d = rows A \<and> cols d = 1
           \<and> (\<forall>i<rows A.
                 call_ij i 0 d = Inr (int (degree A i))
                 \<and> call_ij i i L = Inr (int (degree A i))
                 \<and> (\<forall>j<cols A. j \<noteq> i \<longrightarrow>
                       call_ij i j L
                         = Inr (if map_of (matrix A) (i * cols A + j) = None then 0 else - 1)))"
proof -
  define n where "n = cols A"
  from rep sq have nn: "unat n * unat n < 2 ^ 32"
    by (simp add: dims_representable_def n_def)
  from getDegreeVector_result [OF sq kr rep] obtain d where
    d: "getDegreeVector A = Inr d" "rows d = n" "cols d = 1" "defaultReturn d = 0"
    and dm: "\<And>r. map_of (matrix d) r = (if degree A r = 0 then None else Some (int (degree A r)))"
    using sq by (auto simp: n_def)
  from laplacian_entries_result [OF sq kr rep] obtain l where
    l: "foldM (laplacian_step (cols A)) (matrix A) (SparseMatrix_dims (rows A) (cols A)) = Inr l"
      "rows l = n" "cols l = n" "defaultReturn l = 0"
    and lm: "\<And>k. map_of (matrix l) k = (if map_of (matrix A) k = None then None else Some (- 1))"
    using sq by (auto simp: n_def)
  from laplacian_diagonal_result [OF l(2,3) d(2,3) nn] obtain L where
    L: "foldM (diagonal_step d) (index_range n) l = Inr L" "rows L = n" "cols L = n"
      "defaultReturn L = 0"
    and Lm: "\<And>i j. i < n \<Longrightarrow> j < n \<Longrightarrow> map_of (matrix L) (i * n + j)
                  = (if i = j
                     then Some (case map_of (matrix d) i of Some v \<Rightarrow> v | None \<Rightarrow> defaultReturn d)
                     else map_of (matrix l) (i * n + j))"
    using l(4) by auto
  have g: "getLaplacian A = Inr L"
    using sq l(1) d(1) L(1) by (simp add: getLaplacian_def n_def)
  have deg: "call_ij i 0 d = Inr (int (degree A i))" if "i < n" for i
    using that d(2,3,4) by (simp add: call_ij_def dm not_le)
  have diag: "call_ij i i L = Inr (int (degree A i))" if "i < n" for i
    using that L(2,3) d(4) by (simp add: call_ij_def Lm dm not_le)
  have off: "call_ij i j L = Inr (if map_of (matrix A) (i * n + j) = None then 0 else - 1)"
    if "i < n" "j < n" "j \<noteq> i" for i j
    using that L(2,3,4) by (auto simp: call_ij_def Lm lm not_le)
  from g d(1) L(2,3) d(2,3) deg diag off sq show ?thesis
    by (auto simp: n_def)
qed

lemma laplacian_example_eval:
  "getLaplacian laplacian_example = Inr laplacian_of_example"
  by code_simp

theorem getLaplacian_entries_witness:
  "rows laplacian_example = cols laplacian_example
   \<and> keys_in_range laplacian_example \<and> dims_representable laplacian_example
   \<and> (0 :: Index) < rows laplacian_example \<and> (1 :: Index) < cols laplacian_example
   \<and> (1 :: Index) \<noteq> 0
   \<and> degree laplacian_example 0 = 2
   \<and> call_ij 0 0 laplacian_of_example = Inr 2
   \<and> call_ij 0 1 laplacian_of_example = Inr (- 1)"
proof -
  have h: "rows laplacian_example = cols laplacian_example"
    "keys_in_range laplacian_example" "dims_representable laplacian_example"
    by (simp_all add: laplacian_example_def keys_in_range_def dims_representable_def)
  have i: "(0 :: Index) < rows laplacian_example" "(1 :: Index) < cols laplacian_example"
    by (simp_all add: laplacian_example_def)
  have dg: "degree laplacian_example 0 = 2"
    by code_simp
  have m: "map_of (matrix laplacian_example) (0 * cols laplacian_example + 1) \<noteq> None"
    by (simp add: laplacian_example_def)
  from getLaplacian_entries [OF h] obtain L where
    L: "getLaplacian laplacian_example = Inr L"
    and "\<forall>i<rows laplacian_example.
                 call_ij i i L = Inr (int (degree laplacian_example i))
                 \<and> (\<forall>j<cols laplacian_example. j \<noteq> i \<longrightarrow>
                       call_ij i j L
                         = Inr (if map_of (matrix laplacian_example) (i * cols laplacian_example + j) = None then 0 else - 1))"
    by blast
  with i have "call_ij 0 0 L = Inr (int (degree laplacian_example 0))"
    and "call_ij 0 1 L
           = Inr (if map_of (matrix laplacian_example) (0 * cols laplacian_example + 1) = None
                  then 0 else - 1)"
    by auto
  with dg m have "call_ij 0 0 L = Inr 2" "call_ij 0 1 L = Inr (- 1)"
    by simp_all
  moreover from L have "L = laplacian_of_example"
    by (simp add: laplacian_example_eval)
  ultimately show ?thesis using h i dg by simp
qed

text \<open>
  C6 as stated fails on the example \<open>[[1, 5], [0, 7]]\<close>: cell \<open>(0, 1)\<close> holds 5 and the
  Laplacian has \<open>-1\<close> there, not \<open>-5\<close>; row 0 has two entries and cell \<open>(0, 0)\<close> holds 1,
  and the Laplacian has 2 there, not \<open>2 - 1\<close>.
\<close>

theorem getLaplacian_counterexample:
  "getLaplacian laplacian_example = Inr laplacian_of_example
   \<and> call_ij 0 1 laplacian_example = Inr 5
   \<and> call_ij 0 1 laplacian_of_example = Inr (- 1)
   \<and> call_ij 0 0 laplacian_example = Inr 1
   \<and> degree laplacian_example 0 = 2
   \<and> call_ij 0 0 laplacian_of_example = Inr 2"
  by code_simp


section \<open>Sparse matrix: row normalisation\<close>

lemma insert_idx_fresh:
  assumes "\<not> k > rows m * cols m - 1" and "k \<notin> fst ` set (matrix m)"
  shows "insert_idx k v m = Inr (m\<lparr>matrix := matrix m @ [(k, v)]\<rparr>)"
proof -
  from assms(2) have "map_of (matrix m) k = None"
    by (simp add: map_of_eq_None_iff)
  with assms(1) show ?thesis
    by (simp add: insert_idx_def emplace_def)
qed

lemma reshape_empty:
  "reshape r c (SparseMatrix_dims r' c') = Inr (SparseMatrix_dims r c)"
  by (simp add: reshape_def SparseMatrix_dims_def)

lemma row_key_in_bound:
  fixes k c r i :: Index
  assumes "c \<noteq> 0" and "k div c = i" and "i < r" and "unat r * unat c < 2 ^ 32"
  shows "\<not> k > r * c - 1"
proof -
  from assms(1,2,3) have "unat k < unat r * unat c"
    by (simp add: row_lt_iff [symmetric])
  from this assms(4) show ?thesis by (rule key_in_bound)
qed

lemma getRow_fold:
  fixes row :: "'v SparseMatrix"
  assumes "distinct (map fst xs)" and "fst ` set xs \<inter> fst ` set (matrix row) = {}"
    and "c \<noteq> 0" and "i < rows row" and "cols row = c" and "unat (rows row) * unat c < 2 ^ 32"
  shows "foldM (getRow_step c i True) xs row
           = Inr (row\<lparr>matrix := matrix row @ filter (\<lambda>it. fst it div c = i) xs\<rparr>)"
  using assms
proof (induction xs arbitrary: row)
  case Nil
  then show ?case by simp
next
  case (Cons x xs)
  show ?case
  proof (cases "fst x div c = i")
    case True
    have b: "\<not> fst x > rows row * cols row - 1"
      using row_key_in_bound [of c "fst x" i "rows row"] True Cons.prems(3-6) by simp
    from Cons.prems(2) have f: "fst x \<notin> fst ` set (matrix row)" by auto
    let ?row = "row\<lparr>matrix := matrix row @ [(fst x, snd x)]\<rparr>"
    have s: "getRow_step c i True x row = Inr ?row"
      using True Cons.prems(3) insert_idx_fresh [OF b f] by (simp add: getRow_step_def)
    have "foldM (getRow_step c i True) xs ?row
           = Inr (?row\<lparr>matrix := matrix ?row @ filter (\<lambda>it. fst it div c = i) xs\<rparr>)"
      using Cons.prems by (intro Cons.IH) auto
    with s True show ?thesis by simp
  next
    case False
    have "foldM (getRow_step c i True) xs row
           = Inr (row\<lparr>matrix := matrix row @ filter (\<lambda>it. fst it div c = i) xs\<rparr>)"
      using Cons.prems by (intro Cons.IH) auto
    moreover from False Cons.prems(3) have "getRow_step c i True x row = Inr row"
      by (simp add: getRow_step_def)
    ultimately show ?thesis using False by simp
  qed
qed

lemma getRow_keep:
  fixes m :: "'v::zero SparseMatrix"
  assumes "well_keyed m" and "dims_representable m" and "cols m \<noteq> 0" and "i < rows m"
  shows "getRow i True m
           = Inr \<lparr>matrix = row_entries m i, rows = rows m, cols = cols m, defaultReturn = 0\<rparr>"
proof -
  have "foldM (getRow_step (cols m) i True) (matrix m) (SparseMatrix_dims (rows m) (cols m))
          = Inr ((SparseMatrix_dims (rows m) (cols m))
                   \<lparr>matrix := matrix (SparseMatrix_dims (rows m) (cols m) :: 'v SparseMatrix)
                                @ filter (\<lambda>it. fst it div cols m = i) (matrix m)\<rparr>)"
    using assms
    by (intro getRow_fold)
      (simp_all add: well_keyed_def dims_representable_def SparseMatrix_dims_def)
  moreover have "getRow i True m
      = foldM (getRow_step (cols m) i True) (matrix m) (SparseMatrix_dims (rows m) (cols m))"
  proof -
    from assms(4) have "\<not> rows m \<le> i" by simp
    then show ?thesis by (simp add: getRow_def reshape_empty)
  qed
  ultimately show ?thesis
    by (simp add: row_entries_def SparseMatrix_dims_def)
qed

lemma insert_all_fold:
  fixes nr :: "'v SparseMatrix"
  assumes "distinct (map fst ys)" and "fst ` set ys \<inter> fst ` set (matrix nr) = {}"
    and "list_all (\<lambda>y. \<not> fst y > rows nr * cols nr - 1) ys"
  shows "foldM (\<lambda>it nr. insert_idx (fst it) (g it) nr) ys nr
           = Inr (nr\<lparr>matrix := matrix nr @ map (\<lambda>it. (fst it, g it)) ys\<rparr>)"
  using assms
proof (induction ys arbitrary: nr)
  case Nil
  then show ?case by simp
next
  case (Cons y ys)
  from Cons.prems have b: "\<not> fst y > rows nr * cols nr - 1" by simp
  from Cons.prems(2) have f: "fst y \<notin> fst ` set (matrix nr)" by auto
  let ?nr = "nr\<lparr>matrix := matrix nr @ [(fst y, g y)]\<rparr>"
  have "foldM (\<lambda>it nr. insert_idx (fst it) (g it) nr) ys ?nr
           = Inr (?nr\<lparr>matrix := matrix ?nr @ map (\<lambda>it. (fst it, g it)) ys\<rparr>)"
    using Cons.prems by (intro Cons.IH) auto
  with insert_idx_fresh [OF b f] show ?case by simp
qed

lemma rowAbsSum_empty: "matrix row = [] \<Longrightarrow> rowAbsSum ops row = 0"
  by (simp add: rowAbsSum_def)


lemma key_of_row_entries: "x \<in> set (row_entries m i) \<Longrightarrow> fst x div cols m = i"
  by (simp add: row_entries_def)

lemma key_of_scaled_row: "x \<in> set (scaled_row ops m i) \<Longrightarrow> fst x div cols m = i"
  by (auto simp: scaled_row_def row_entries_def)

lemma distinct_row_entries: "well_keyed m \<Longrightarrow> distinct (map fst (row_entries m i))"
  by (simp add: well_keyed_def row_entries_def distinct_map_filter)

lemma normRows_step_ok:
  fixes m nr :: "'d::zero SparseMatrix"
  assumes wk: "well_keyed m" and rep: "dims_representable m" and c0: "cols m \<noteq> 0"
    and i: "i < rows m" and dims: "rows nr = rows m" "cols nr = cols m"
    and fresh: "fst ` set (matrix nr) \<inter> {k. k div cols m = i} = {}"
  shows "normRows_step ops m i nr = Inr (nr\<lparr>matrix := matrix nr @ scaled_row ops m i\<rparr>)"
proof -
  let ?row = "\<lparr>matrix = row_entries m i, rows = rows m, cols = cols m,
                 defaultReturn = 0 :: 'd\<rparr>"
  have g: "getRow i True m = Inr ?row"
    using wk rep c0 i by (rule getRow_keep)
  have d: "(if d_less ops (rowAbsSum ops ?row) (d_epsilon ops) then d_one ops
            else rowAbsSum ops ?row) = row_divisor ops m i"
    by (simp add: rowAbsSum_def row_divisor_def Let_def)
  have disj: "fst ` set (row_entries m i) \<inter> fst ` set (matrix nr) = {}"
    using fresh by (auto dest: key_of_row_entries)
  have bound: "list_all (\<lambda>y. \<not> fst y > rows nr * cols nr - 1) (row_entries m i)"
    unfolding list_all_iff
  proof
    fix y assume "y \<in> set (row_entries m i)"
    then have "fst y div cols m = i" by (rule key_of_row_entries)
    with c0 i rep show "\<not> fst y > rows nr * cols nr - 1"
      using row_key_in_bound [of "cols m" "fst y" i "rows m"]
      by (simp add: dims dims_representable_def)
  qed
  have "foldM (\<lambda>it nr. insert_idx (fst it) (d_div ops (snd it) (row_divisor ops m i)) nr)
          (row_entries m i) nr
          = Inr (nr\<lparr>matrix := matrix nr
                   @ map (\<lambda>it. (fst it, d_div ops (snd it) (row_divisor ops m i)))
                       (row_entries m i)\<rparr>)"
    using distinct_row_entries [OF wk] disj bound by (rule insert_all_fold)
  then show ?thesis
    by (simp add: normRows_step_def g d Let_def scaled_row_def)
qed

lemma normRows_fold:
  fixes m nr :: "'d::zero SparseMatrix"
  assumes wk: "well_keyed m" and rep: "dims_representable m" and c0: "cols m \<noteq> 0"
    and "distinct is" and "list_all (\<lambda>i. i < rows m) is"
    and "rows nr = rows m" and "cols nr = cols m"
    and "fst ` set (matrix nr) \<inter> {k. k div cols m \<in> set is} = {}"
  shows "foldM (normRows_step ops m) is nr
           = Inr (nr\<lparr>matrix := matrix nr @ concat (map (scaled_row ops m) is)\<rparr>)"
  using assms(4-)
proof (induction "is" arbitrary: nr)
  case Nil
  then show ?case by simp
next
  case (Cons i "is")
  let ?nr = "nr\<lparr>matrix := matrix nr @ scaled_row ops m i\<rparr>"
  have s: "normRows_step ops m i nr = Inr ?nr"
    using wk rep c0 Cons.prems by (intro normRows_step_ok) auto
  have "fst ` set (matrix ?nr) \<inter> {k. k div cols m \<in> set is} = {}"
    using Cons.prems(1,5) by (auto dest: key_of_scaled_row)
  then have "foldM (normRows_step ops m) is ?nr
           = Inr (?nr\<lparr>matrix := matrix ?nr @ concat (map (scaled_row ops m) is)\<rparr>)"
    using Cons.prems by (intro Cons.IH) simp_all
  with s show ?case by simp
qed

lemma distinct_index_range: "distinct (index_range n)"
proof -
  have "inj_on (of_nat :: nat \<Rightarrow> Index) {0..<unat n}"
  proof (rule inj_onI)
    fix a b assume a: "a \<in> {0..<unat n}" and b: "b \<in> {0..<unat n}"
      and e: "(of_nat a :: Index) = of_nat b"
    from a have ua: "unat (of_nat a :: Index) = a" by (intro le_unat_uoi [of _ n]) simp
    from b have ub: "unat (of_nat b :: Index) = b" by (intro le_unat_uoi [of _ n]) simp
    from e have "unat (of_nat a :: Index) = unat (of_nat b :: Index)" by (rule arg_cong)
    then show "a = b" unfolding ua ub .
  qed
  then show ?thesis by (simp add: index_range_def distinct_map)
qed

lemma getNormRows_result:
  fixes m :: "'d::zero SparseMatrix"
  assumes wk: "well_keyed m" and rep: "dims_representable m" and c0: "cols m \<noteq> 0"
  shows "getNormRows ops m
           = Inr \<lparr>matrix = concat (map (scaled_row ops m) (index_range (rows m))),
                  rows = rows m, cols = cols m, defaultReturn = 0\<rparr>"
proof -
  have "foldM (normRows_step ops m) (index_range (rows m)) (SparseMatrix_dims (rows m) (cols m))
          = Inr ((SparseMatrix_dims (rows m) (cols m))
                   \<lparr>matrix := matrix (SparseMatrix_dims (rows m) (cols m) :: 'd SparseMatrix)
                       @ concat (map (scaled_row ops m) (index_range (rows m)))\<rparr>)"
    using wk rep c0 distinct_index_range
    by (intro normRows_fold)
      (simp_all add: SparseMatrix_dims_def list_all_iff mem_index_range)
  then show ?thesis
    by (simp add: getNormRows_def SparseMatrix_dims_def)
qed






text \<open>
  A 1 by 1 matrix whose entry is below \<open>epsilon\<close> in absolute value comes back divided by
  \<open>1.\<close>, whatever the arithmetic of \<open>double\<close> is.
\<close>

lemma getNormRows_small_entry:
  fixes x :: "'d::zero"
  assumes "d_less ops (d_add ops 0 (d_abs ops x)) (d_epsilon ops)"
  shows "getNormRows ops \<lparr>matrix = [(0, x)], rows = 1, cols = 1, defaultReturn = 0\<rparr>
           = Inr \<lparr>matrix = [(0, d_div ops x (d_one ops))], rows = 1, cols = 1,
                  defaultReturn = 0\<rparr>"
proof -
  let ?m = "\<lparr>matrix = [(0, x)], rows = 1, cols = 1, defaultReturn = 0 :: 'd\<rparr>"
  have "well_keyed ?m" "dims_representable ?m" "cols ?m \<noteq> 0"
    by (simp_all add: well_keyed_def dims_representable_def)
  then have "getNormRows ops ?m
           = Inr \<lparr>matrix = concat (map (scaled_row ops ?m) (index_range (rows ?m))),
                  rows = rows ?m, cols = cols ?m, defaultReturn = 0\<rparr>"
    by (rule getNormRows_result)
  moreover have "index_range 1 = [0]"
    by (simp add: index_range_def)
  moreover have "scaled_row ops ?m 0 = [(0, d_div ops x (d_one ops))]"
    using assms by (simp add: scaled_row_def row_divisor_def row_entries_def)
  ultimately show ?thesis by simp
qed


end
